theory Spec2Isabelle
  imports Main
begin

section \<open>Python values, exceptions and list primitives\<close>

text \<open>
  The two modules verified here are \<^verbatim>\<open>pyndn/impl/pending_interest_table.py\<close> and
  \<^verbatim>\<open>pyndn/threadsafe_face.py\<close>. Python is dynamically typed: an id handed to the
  table is whatever the caller passed. The ids of this library are integers
  (\<^verbatim>\<open>:param int pendingInterestId\<close>); strings are kept as a second shape so that the
  operator \<^verbatim>\<open>+\<close> of the source has both of its outcomes.
\<close>

datatype pyval = PyNone | PyInt int | PyStr string

datatype py_error =
    TypeError
  | IndexError
  | ValueError
  | AttributeError
  | Raised string  \<comment> \<open>an exception raised by application code (a callback)\<close>

datatype log_level = DEBUG | ERROR

text \<open>Python's binary \<^verbatim>\<open>+\<close>: numbers add, strings concatenate, a mixed pair raises.\<close>

fun py_add :: "pyval \<Rightarrow> pyval \<Rightarrow> py_error + pyval" where
  "py_add (PyInt a) (PyInt b) = Inr (PyInt (a + b))"
| "py_add (PyStr a) (PyStr b) = Inr (PyStr (a @ b))"
| "py_add _ _ = Inl TypeError"

text \<open>
  \<^verbatim>\<open>xs[i]\<close>, \<^verbatim>\<open>xs.pop(i)\<close> / \<^verbatim>\<open>del xs[i]\<close> and \<^verbatim>\<open>xs.index(x)\<close>. An index below zero
  counts from the end; an index outside the list raises IndexError; a value that is
  not in the list raises ValueError.
\<close>

definition py_norm_index :: "'a list \<Rightarrow> int \<Rightarrow> int" where
  "py_norm_index xs i = (if 0 \<le> i then i else int (length xs) + i)"

definition py_getitem :: "'a list \<Rightarrow> int \<Rightarrow> py_error + 'a" where
  "py_getitem xs i =
     (if 0 \<le> py_norm_index xs i \<and> py_norm_index xs i < int (length xs)
      then Inr (xs ! nat (py_norm_index xs i))
      else Inl IndexError)"

definition py_pop :: "'a list \<Rightarrow> int \<Rightarrow> py_error + 'a list" where
  "py_pop xs i =
     (if 0 \<le> py_norm_index xs i \<and> py_norm_index xs i < int (length xs)
      then Inr (take (nat (py_norm_index xs i)) xs @ drop (Suc (nat (py_norm_index xs i))) xs)
      else Inl IndexError)"

fun py_index :: "'a list \<Rightarrow> 'a \<Rightarrow> py_error + int" where
  "py_index [] x = Inl ValueError"
| "py_index (y # ys) x =
     (if y = x then Inr 0
      else (case py_index ys x of Inl e \<Rightarrow> Inl e | Inr k \<Rightarrow> Inr (k + 1)))"

section \<open>PendingInterestTable.Entry\<close>

text \<open>
  An Entry is a Python object: the caller of \<^verbatim>\<open>add\<close> and the table hold the same
  object, and \<^verbatim>\<open>setIsRemoved\<close> through one reference is seen through the other. The
  model keeps the objects in a store indexed by address; the table and the caller's
  lists hold addresses. Type \<open>'i\<close> is the Interest, \<open>'d\<close> the onData function object
  (never called by this module) and \<open>'w\<close> the state of the application, which is all
  that a callback of the application reads and writes. A callback returns the
  exception it raised, if any, and the application's new state. A callback that calls
  back into the table while it runs is outside this model.
\<close>

type_synonym ('i, 'w) on_timeout = "'i \<Rightarrow> 'w \<Rightarrow> py_error option \<times> 'w"

record ('i, 'd, 'w) entry =
  pendingInterestId :: pyval
  interest :: 'i
  onData :: 'd
  onTimeout :: "('i, 'w) on_timeout option"
  isRemoved :: bool

text \<open>\<^verbatim>\<open>Entry.__init__\<close>\<close>

definition Entry ::
  "pyval \<Rightarrow> 'i \<Rightarrow> 'd \<Rightarrow> ('i, 'w) on_timeout option \<Rightarrow> ('i, 'd, 'w) entry" where
  "Entry pid i od ot =
     \<lparr>pendingInterestId = pid, interest = i, onData = od, onTimeout = ot, isRemoved = False\<rparr>"

text \<open>
  The program state: the store of Entry objects (\<open>used\<close> is the number of objects
  created so far, so the next object gets address \<open>used\<close>), the list \<^verbatim>\<open>self._table\<close>,
  the records handed to the \<^verbatim>\<open>logging\<close> module, and the application's state.
\<close>

record ('i, 'd, 'w) pit_state =
  heap :: "nat \<Rightarrow> ('i, 'd, 'w) entry"
  used :: nat
  table :: "nat list"
  logged :: "(log_level \<times> pyval) list"
  world :: 'w

definition getPendingInterestId :: "nat \<Rightarrow> ('i, 'd, 'w) pit_state \<Rightarrow> pyval" where
  "getPendingInterestId r s = pendingInterestId (heap s r)"

definition getInterest :: "nat \<Rightarrow> ('i, 'd, 'w) pit_state \<Rightarrow> 'i" where
  "getInterest r s = interest (heap s r)"

definition getOnData :: "nat \<Rightarrow> ('i, 'd, 'w) pit_state \<Rightarrow> 'd" where
  "getOnData r s = onData (heap s r)"

definition setIsRemoved :: "nat \<Rightarrow> ('i, 'd, 'w) pit_state \<Rightarrow> ('i, 'd, 'w) pit_state" where
  "setIsRemoved r s = s\<lparr>heap := (heap s)(r := (heap s r)\<lparr>isRemoved := True\<rparr>)\<rparr>"

definition getIsRemoved :: "nat \<Rightarrow> ('i, 'd, 'w) pit_state \<Rightarrow> bool" where
  "getIsRemoved r s = isRemoved (heap s r)"

text \<open>
  \<^verbatim>\<open>callTimeout\<close>: \<^verbatim>\<open>if self._onTimeout: try: self._onTimeout(self._interest)
  except: logging.exception("Error in onTimeout")\<close>. The bare \<^verbatim>\<open>except\<close> takes every
  exception, so the only outcome is a normal return.
\<close>

definition callTimeout ::
  "nat \<Rightarrow> ('i, 'd, 'w) pit_state \<Rightarrow> (py_error + unit) \<times> ('i, 'd, 'w) pit_state" where
  "callTimeout r s =
     (case onTimeout (heap s r) of
        None \<Rightarrow> (Inr (), s)
      | Some f \<Rightarrow>
          (case f (interest (heap s r)) (world s) of
             (None, w') \<Rightarrow> (Inr (), s\<lparr>world := w'\<rparr>)
           | (Some e, w') \<Rightarrow>
               (Inr (), s\<lparr>logged := logged s @ [(ERROR, PyStr ''Error in onTimeout'')],
                          world := w'\<rparr>)))"

section \<open>PendingInterestTable\<close>

text \<open>
  \<^verbatim>\<open>__init__\<close>: an empty table. No Entry has been created and nothing has been logged;
  \<open>free\<close> is the content of the store before any Entry exists, and \<open>w\<close> the state
  the application starts in.
\<close>

definition PendingInterestTable ::
  "(nat \<Rightarrow> ('i, 'd, 'w) entry) \<Rightarrow> 'w \<Rightarrow> ('i, 'd, 'w) pit_state" where
  "PendingInterestTable free w =
     \<lparr>heap = free, used = 0, table = [], logged = [], world = w\<rparr>"

text \<open>\<^verbatim>\<open>add\<close>: create the Entry, append it to the table, return it.\<close>

definition add ::
  "pyval \<Rightarrow> 'i \<Rightarrow> 'd \<Rightarrow> ('i, 'w) on_timeout option \<Rightarrow> ('i, 'd, 'w) pit_state
     \<Rightarrow> nat \<times> ('i, 'd, 'w) pit_state" where
  "add pid interestCopy od ot s =
     (let entry = used s
      in (entry,
          s\<lparr>heap := (heap s)(entry := Entry pid interestCopy od ot),
            used := Suc (used s),
            table := table s @ [entry]\<rparr>))"

text \<open>
  \<^verbatim>\<open>extractEntriesForExpressedInterest\<close>: the loop \<^verbatim>\<open>while i >= 0\<close> from the last index
  down. \<open>matchesName\<close> is \<^verbatim>\<open>Interest.matchesName\<close>, which is not part of this module.
  \<open>entries\<close> is the caller's list, which the loop appends to. The result carries the
  state and the caller's list as they are when the loop ends or an exception leaves it.
\<close>

function extract_loop ::
  "('i \<Rightarrow> 'n \<Rightarrow> bool) \<Rightarrow> 'n \<Rightarrow> int \<Rightarrow> ('i, 'd, 'w) pit_state \<Rightarrow> nat list
     \<Rightarrow> (py_error + unit) \<times> ('i, 'd, 'w) pit_state \<times> nat list" where
  "extract_loop matchesName name i s entries =
     (if 0 \<le> i then
        (case py_getitem (table s) i of
           Inl e \<Rightarrow> (Inl e, s, entries)
         | Inr pendingInterest \<Rightarrow>
             if matchesName (getInterest pendingInterest s) name then
               (case py_pop (table s) i of
                  Inl e \<Rightarrow> (Inl e, s, entries @ [pendingInterest])
                | Inr t' \<Rightarrow>
                    extract_loop matchesName name (i - 1)
                      (setIsRemoved pendingInterest (s\<lparr>table := t'\<rparr>))
                      (entries @ [pendingInterest]))
             else extract_loop matchesName name (i - 1) s entries)
      else (Inr (), s, entries))"
  by pat_completeness auto
termination
  by (relation "measure (\<lambda>(m, n, i, s, es). nat (i + 1))") auto

definition extractEntriesForExpressedInterest ::
  "('i \<Rightarrow> 'n \<Rightarrow> bool) \<Rightarrow> 'n \<Rightarrow> nat list \<Rightarrow> ('i, 'd, 'w) pit_state
     \<Rightarrow> (py_error + unit) \<times> ('i, 'd, 'w) pit_state \<times> nat list" where
  "extractEntriesForExpressedInterest matchesName name entries s =
     extract_loop matchesName name (int (length (table s)) - 1) s entries"

text \<open>
  \<^verbatim>\<open>removePendingInterest\<close>: the same backwards loop, counting the entries it removes.
  The source reads \<^verbatim>\<open>self._table[i]\<close> twice, marks the entry and then pops it. After
  the loop, \<^verbatim>\<open>if count == 0\<close>, the message is built with \<^verbatim>\<open>+\<close> from a string and the id
  and handed to \<^verbatim>\<open>logging.getLogger(__name__).debug\<close>.
\<close>

function remove_loop ::
  "pyval \<Rightarrow> int \<Rightarrow> ('i, 'd, 'w) pit_state \<Rightarrow> int
     \<Rightarrow> (py_error + int) \<times> ('i, 'd, 'w) pit_state" where
  "remove_loop pid i s count =
     (if 0 \<le> i then
        (case py_getitem (table s) i of
           Inl e \<Rightarrow> (Inl e, s)
         | Inr r \<Rightarrow>
             if getPendingInterestId r s = pid then
               (case py_getitem (table s) i of
                  Inl e \<Rightarrow> (Inl e, s)
                | Inr r' \<Rightarrow>
                    (case py_pop (table (setIsRemoved r' s)) i of
                       Inl e \<Rightarrow> (Inl e, setIsRemoved r' s)
                     | Inr t' \<Rightarrow>
                         remove_loop pid (i - 1) ((setIsRemoved r' s)\<lparr>table := t'\<rparr>)
                           (count + 1)))
             else remove_loop pid (i - 1) s count)
      else (Inr count, s))"
  by pat_completeness auto
termination
  by (relation "measure (\<lambda>(p, i, s, c). nat (i + 1))") auto

definition logger_debug :: "pyval \<Rightarrow> ('i, 'd, 'w) pit_state \<Rightarrow> ('i, 'd, 'w) pit_state" where
  "logger_debug msg s = s\<lparr>logged := logged s @ [(DEBUG, msg)]\<rparr>"

definition removePendingInterest ::
  "pyval \<Rightarrow> ('i, 'd, 'w) pit_state \<Rightarrow> (py_error + unit) \<times> ('i, 'd, 'w) pit_state" where
  "removePendingInterest pid s =
     (case remove_loop pid (int (length (table s)) - 1) s 0 of
        (Inl e, s') \<Rightarrow> (Inl e, s')
      | (Inr count, s') \<Rightarrow>
          if count = 0 then
            (case py_add (PyStr ''removePendingInterest: Didn't find pendingInterestId '') pid of
               Inl e \<Rightarrow> (Inl e, s')
             | Inr msg \<Rightarrow> (Inr (), logger_debug msg s'))
          else (Inr (), s'))"

text \<open>
  \<^verbatim>\<open>removeEntry\<close>: \<^verbatim>\<open>self._table.index(pendingInterest)\<close> compares with \<^verbatim>\<open>==\<close>, which
  for an Entry (no \<^verbatim>\<open>__eq__\<close>) is identity, that is equality of addresses. The
  \<^verbatim>\<open>except ValueError\<close> returns False.
\<close>

definition removeEntry ::
  "nat \<Rightarrow> ('i, 'd, 'w) pit_state \<Rightarrow> (py_error + bool) \<times> ('i, 'd, 'w) pit_state" where
  "removeEntry pendingInterest s =
     (if getIsRemoved pendingInterest s then (Inr False, s)
      else
        (case py_index (table s) pendingInterest of
           Inl e \<Rightarrow> (if e = ValueError then (Inr False, s) else (Inl e, s))
         | Inr index \<Rightarrow>
             (case py_pop (table (setIsRemoved pendingInterest s)) index of
                Inl e \<Rightarrow> (Inl e, setIsRemoved pendingInterest s)
              | Inr t' \<Rightarrow> (Inr True, (setIsRemoved pendingInterest s)\<lparr>table := t'\<rparr>))))"

section \<open>The table's specification vocabulary\<close>

text \<open>
  What the claims about the table are stated with: which entries of a state match a
  name or carry an id, the store after a list of entries was marked removed, the
  table's invariant, and runs of calls on the table.
\<close>

definition entry_matches ::
  "('i \<Rightarrow> 'n \<Rightarrow> bool) \<Rightarrow> 'n \<Rightarrow> ('i, 'd, 'w) pit_state \<Rightarrow> nat \<Rightarrow> bool" where
  "entry_matches matchesName name s r = matchesName (getInterest r s) name"

definition has_id :: "pyval \<Rightarrow> ('i, 'd, 'w) pit_state \<Rightarrow> nat \<Rightarrow> bool" where
  "has_id pid s r = (getPendingInterestId r s = pid)"

definition mark_removed ::
  "nat list \<Rightarrow> (nat \<Rightarrow> ('i, 'd, 'w) entry) \<Rightarrow> (nat \<Rightarrow> ('i, 'd, 'w) entry)" where
  "mark_removed rs h = (\<lambda>r. if r \<in> set rs then (h r)\<lparr>isRemoved := True\<rparr> else h r)"

text \<open>
  The invariant: the table holds no entry twice, it holds only entries that \<^verbatim>\<open>add\<close>
  created, and an entry that \<^verbatim>\<open>add\<close> created has its flag set exactly when it is no
  longer in the table.
\<close>

definition pit_inv :: "('i, 'd, 'w) pit_state \<Rightarrow> bool" where
  "pit_inv s =
     (distinct (table s) \<and>
      list_all (\<lambda>r. r < used s) (table s) \<and>
      list_all (\<lambda>r. getIsRemoved r s = (r \<notin> set (table s))) [0..<used s])"

text \<open>
  A call on the table by its owner, and what is left of the state after it. The list
  that \<^verbatim>\<open>extractEntriesForExpressedInterest\<close> fills is the caller's and is dropped here.
\<close>

datatype ('i, 'd, 'n, 'w) pit_call =
    CallAdd pyval 'i 'd "('i, 'w) on_timeout option"
  | CallExtract 'n "nat list"
  | CallRemovePendingInterest pyval
  | CallRemoveEntry nat
  | CallTimeout nat

fun pit_step ::
  "('i \<Rightarrow> 'n \<Rightarrow> bool) \<Rightarrow> ('i, 'd, 'n, 'w) pit_call \<Rightarrow> ('i, 'd, 'w) pit_state
     \<Rightarrow> ('i, 'd, 'w) pit_state" where
  "pit_step m (CallAdd pid i od ot) s = snd (add pid i od ot s)"
| "pit_step m (CallExtract name entries) s =
     fst (snd (extractEntriesForExpressedInterest m name entries s))"
| "pit_step m (CallRemovePendingInterest pid) s = snd (removePendingInterest pid s)"
| "pit_step m (CallRemoveEntry r) s = snd (removeEntry r s)"
| "pit_step m (CallTimeout r) s = snd (callTimeout r s)"

fun pit_run ::
  "('i \<Rightarrow> 'n \<Rightarrow> bool) \<Rightarrow> ('i, 'd, 'n, 'w) pit_call list \<Rightarrow> ('i, 'd, 'w) pit_state
     \<Rightarrow> ('i, 'd, 'w) pit_state" where
  "pit_run m [] s = s"
| "pit_run m (c # cs) s = pit_run m cs (pit_step m c s)"

text \<open>A sequence of \<^verbatim>\<open>add\<close> calls, each with its four arguments, in the order given.\<close>

fun add_all ::
  "(pyval \<times> 'i \<times> 'd \<times> ('i, 'w) on_timeout option) list \<Rightarrow> ('i, 'd, 'w) pit_state
     \<Rightarrow> ('i, 'd, 'w) pit_state" where
  "add_all [] s = s"
| "add_all ((pid, i, od, ot) # rest) s = add_all rest (snd (add pid i od ot s))"

text \<open>The calls that take entries out of the table.\<close>

fun removing :: "('i, 'd, 'n, 'w) pit_call \<Rightarrow> bool" where
  "removing (CallExtract name entries) = True"
| "removing (CallRemovePendingInterest pid) = True"
| "removing (CallRemoveEntry r) = True"
| "removing (CallAdd pid i od ot) = False"
| "removing (CallTimeout r) = False"

text \<open>
  A matching predicate for examples: an interest, given by the components of its name,
  matches every name it is a prefix of.
\<close>

definition prefix_match :: "string list \<Rightarrow> string list \<Rightarrow> bool" where
  "prefix_match i n = (take (length i) n = i)"

section \<open>The event loop\<close>

text \<open>
  The loop is asyncio's (Trollius' before Python 3.3), not this library's. Of the
  loop only the calls of this module are kept, each by what it records: \<^verbatim>\<open>call_soon\<close>
  and \<^verbatim>\<open>call_soon_threadsafe\<close> put a callback with its arguments at the end of the
  ready queue, \<^verbatim>\<open>call_later\<close> adds a timer, \<^verbatim>\<open>stop\<close> asks the loop to stop. A delay is
  held in milliseconds: the source's \<^verbatim>\<open>0.5\<close> seconds is 500 and \<^verbatim>\<open>0.01\<close> is 10. A
  callback is named by the method it is bound to; \<open>'v\<close> is the type of the arguments
  that are passed through unread.
\<close>

datatype 'v callback =
    StopWhenCallback
  | ProcessEventsCallback
  | ExpressInterestHelper pyval 'v 'v 'v 'v 'v
  | RegisterPrefixHelper pyval 'v 'v 'v 'v 'v
  | SetInterestFilterHelper pyval 'v 'v

record 'v event_loop =
  ready :: "'v callback list"
  timers :: "(nat \<times> 'v callback) list"
  stopping :: bool

definition call_soon :: "'v callback \<Rightarrow> 'v event_loop \<Rightarrow> 'v event_loop" where
  "call_soon cb l = l\<lparr>ready := ready l @ [cb]\<rparr>"

definition call_soon_threadsafe :: "'v callback \<Rightarrow> 'v event_loop \<Rightarrow> 'v event_loop" where
  "call_soon_threadsafe cb l = l\<lparr>ready := ready l @ [cb]\<rparr>"

definition call_later :: "nat \<Rightarrow> 'v callback \<Rightarrow> 'v event_loop \<Rightarrow> 'v event_loop" where
  "call_later delay cb l = l\<lparr>timers := timers l @ [(delay, cb)]\<rparr>"

definition loop_stop :: "'v event_loop \<Rightarrow> 'v event_loop" where
  "loop_stop l = l\<lparr>stopping := True\<rparr>"

section \<open>ThreadsafeFace\<close>

text \<open>
  The base class Face and its Node are not among the sources. Of the Node the model
  keeps the id counter and the pending interest table it owns (\<open>'t\<close>, unread here).
\<close>

record 't node =
  lastEntryId :: int
  pendingInterestTable :: 't

text \<open>
  Modelled from the spec: \<^verbatim>\<open>Node.getNextEntryId\<close> is missing from the sources; the spec
  calls it a process-wide monotonic generator of unique integer ids. It counts up by
  one and returns the new count.
\<close>

definition getNextEntryId :: "'t node \<Rightarrow> pyval \<times> 't node" where
  "getNextEntryId nd = (PyInt (lastEntryId nd + 1), nd\<lparr>lastEntryId := lastEntryId nd + 1\<rparr>)"

text \<open>
  The object's fields: \<^verbatim>\<open>self._loop\<close> (a reference to the loop, or None; the loop's
  state is shown in place), \<^verbatim>\<open>self._stopWhenTest\<close> (None, or a function of the
  application that returns a truth value or raises), \<^verbatim>\<open>self._node\<close>, and the state
  of the application. A method of the base class (\<^verbatim>\<open>Face.processEvents\<close>,
  \<^verbatim>\<open>Face.shutdown\<close>) is a parameter: it works on the node and on the application
  (through the callbacks it calls), returns the exception it raised, if any, and
  knows nothing of the fields this class adds.
\<close>

type_synonym ('t, 'w) base_method = "'t node \<Rightarrow> 'w \<Rightarrow> py_error option \<times> 't node \<times> 'w"

record ('v, 't, 'w) threadsafe_face =
  loop :: "'v event_loop option"
  stopWhenTest :: "('w \<Rightarrow> (py_error + bool) \<times> 'w) option"
  node :: "'t node"
  app :: 'w

text \<open>
  \<^verbatim>\<open>__init__\<close>, after \<^verbatim>\<open>Face.__init__\<close> has made the node: both services are put on the
  ready queue.
\<close>

definition ThreadsafeFace ::
  "'v event_loop \<Rightarrow> 't node \<Rightarrow> 'w \<Rightarrow> ('v, 't, 'w) threadsafe_face" where
  "ThreadsafeFace l nd w =
     \<lparr>loop = Some (call_soon ProcessEventsCallback (call_soon StopWhenCallback l)),
      stopWhenTest = None, node = nd, app = w\<rparr>"

text \<open>
  The three methods that return an id; the other public methods of the class
  (\<^verbatim>\<open>removePendingInterest\<close>, \<^verbatim>\<open>removeRegisteredPrefix\<close>, \<^verbatim>\<open>unsetInterestFilter\<close>,
  \<^verbatim>\<open>putData\<close>, \<^verbatim>\<open>send\<close>) return nothing and are not modelled.
  \<^verbatim>\<open>self._loop.call_soon_threadsafe\<close> on a \<^verbatim>\<open>_loop\<close> that is None would raise
  AttributeError.
\<close>

definition hand_off ::
  "'v callback \<Rightarrow> ('v, 't, 'w) threadsafe_face
     \<Rightarrow> (py_error + unit) \<times> ('v, 't, 'w) threadsafe_face" where
  "hand_off cb s =
     (case loop s of
        None \<Rightarrow> (Inl AttributeError, s)
      | Some l \<Rightarrow> (Inr (), s\<lparr>loop := Some (call_soon_threadsafe cb l)\<rparr>))"

definition expressInterest ::
  "'v \<Rightarrow> 'v \<Rightarrow> 'v \<Rightarrow> 'v \<Rightarrow> 'v \<Rightarrow> ('v, 't, 'w) threadsafe_face
     \<Rightarrow> (py_error + pyval) \<times> ('v, 't, 'w) threadsafe_face" where
  "expressInterest interestOrName arg2 arg3 arg4 arg5 s =
     (let (pendingInterestId, nd') = getNextEntryId (node s)
      in (case hand_off (ExpressInterestHelper pendingInterestId interestOrName arg2 arg3 arg4 arg5)
                 (s\<lparr>node := nd'\<rparr>) of
            (Inl e, s') \<Rightarrow> (Inl e, s')
          | (Inr _, s') \<Rightarrow> (Inr pendingInterestId, s')))"

definition registerPrefix ::
  "'v \<Rightarrow> 'v \<Rightarrow> 'v \<Rightarrow> 'v \<Rightarrow> 'v \<Rightarrow> ('v, 't, 'w) threadsafe_face
     \<Rightarrow> (py_error + pyval) \<times> ('v, 't, 'w) threadsafe_face" where
  "registerPrefix prefix onInterest onRegisterFailed flags wireFormat s =
     (let (registeredPrefixId, nd') = getNextEntryId (node s)
      in (case hand_off (RegisterPrefixHelper registeredPrefixId prefix onInterest
                   onRegisterFailed flags wireFormat)
                 (s\<lparr>node := nd'\<rparr>) of
            (Inl e, s') \<Rightarrow> (Inl e, s')
          | (Inr _, s') \<Rightarrow> (Inr registeredPrefixId, s')))"

definition setInterestFilter ::
  "'v \<Rightarrow> 'v \<Rightarrow> ('v, 't, 'w) threadsafe_face
     \<Rightarrow> (py_error + pyval) \<times> ('v, 't, 'w) threadsafe_face" where
  "setInterestFilter filterOrPrefix onInterest s =
     (let (interestFilterId, nd') = getNextEntryId (node s)
      in (case hand_off (SetInterestFilterHelper interestFilterId filterOrPrefix onInterest)
                 (s\<lparr>node := nd'\<rparr>) of
            (Inl e, s') \<Rightarrow> (Inl e, s')
          | (Inr _, s') \<Rightarrow> (Inr interestFilterId, s')))"

text \<open>
  \<^verbatim>\<open>shutdown\<close>: the first statement of the source is the expression
  \<^verbatim>\<open>self._loop == None\<close>, a comparison whose value is dropped; then \<^verbatim>\<open>Face.shutdown\<close>.
\<close>

definition shutdown ::
  "('t, 'w) base_method \<Rightarrow> ('v, 't, 'w) threadsafe_face
     \<Rightarrow> (py_error + unit) \<times> ('v, 't, 'w) threadsafe_face" where
  "shutdown Face_shutdown s =
     (let dropped = (loop s = None);
          (raised, nd', w') = Face_shutdown (node s) (app s)
      in ((case raised of None \<Rightarrow> Inr () | Some e \<Rightarrow> Inl e), s\<lparr>node := nd', app := w'\<rparr>))"

definition stopWhen ::
  "('w \<Rightarrow> (py_error + bool) \<times> 'w) option \<Rightarrow> ('v, 't, 'w) threadsafe_face
     \<Rightarrow> ('v, 't, 'w) threadsafe_face" where
  "stopWhen test s = s\<lparr>stopWhenTest := test\<rparr>"

text \<open>
  \<^verbatim>\<open>_stopWhenCallback\<close>: \<^verbatim>\<open>try: if test != None and test(): stop = True; loop.stop()
  finally: if not stop: loop.call_later(0.5, self._stopWhenCallback)\<close>. There is no
  \<^verbatim>\<open>except\<close>: after the \<^verbatim>\<open>finally\<close> block an exception of the test goes on to the caller.
\<close>

definition stopWhenCallback ::
  "('v, 't, 'w) threadsafe_face \<Rightarrow> (py_error + unit) \<times> ('v, 't, 'w) threadsafe_face" where
  "stopWhenCallback s =
     (case loop s of
        None \<Rightarrow> (Inr (), s)
      | Some l \<Rightarrow>
          (let (outcome, w') =
                 (case stopWhenTest s of
                    None \<Rightarrow> (Inr False, app s)
                  | Some test \<Rightarrow> test (app s));
               stop = (outcome = Inr True);
               l1 = (if stop then loop_stop l else l);
               l2 = (if \<not> stop then call_later 500 StopWhenCallback l1 else l1)
           in ((case outcome of Inl e \<Rightarrow> Inl e | Inr _ \<Rightarrow> Inr ()),
               s\<lparr>loop := Some l2, app := w'\<rparr>)))"

text \<open>
  \<^verbatim>\<open>_processEventsCallback\<close>: \<^verbatim>\<open>try: self.processEvents() finally:
  loop.call_later(0.01, self._processEventsCallback)\<close>.
\<close>

definition processEventsCallback ::
  "('t, 'w) base_method \<Rightarrow> ('v, 't, 'w) threadsafe_face
     \<Rightarrow> (py_error + unit) \<times> ('v, 't, 'w) threadsafe_face" where
  "processEventsCallback processEvents s =
     (case loop s of
        None \<Rightarrow> (Inr (), s)
      | Some l \<Rightarrow>
          (let (raised, nd', w') = processEvents (node s) (app s)
           in ((case raised of None \<Rightarrow> Inr () | Some e \<Rightarrow> Inl e),
               s\<lparr>loop := Some (call_later 10 ProcessEventsCallback l), node := nd', app := w'\<rparr>)))"

text \<open>What a face has on its loop: the timers set and the calls waiting in the ready queue.\<close>

definition armed :: "('v, 't, 'w) threadsafe_face \<Rightarrow> (nat \<times> 'v callback) list" where
  "armed s = (case loop s of None \<Rightarrow> [] | Some l \<Rightarrow> timers l)"

definition queued :: "('v, 't, 'w) threadsafe_face \<Rightarrow> 'v callback list" where
  "queued s = (case loop s of None \<Rightarrow> [] | Some l \<Rightarrow> ready l)"

section \<open>The list primitives and the two loops\<close>

text \<open>The loops are unfolded one iteration at a time, by hand.\<close>

declare extract_loop.simps [simp del] remove_loop.simps [simp del]

lemma py_getitem_in_range:
  "0 \<le> i \<Longrightarrow> i < int (length xs) \<Longrightarrow> py_getitem xs i = Inr (xs ! nat i)"
  by (simp add: py_getitem_def py_norm_index_def)

lemma py_pop_in_range:
  "0 \<le> i \<Longrightarrow> i < int (length xs) \<Longrightarrow> py_pop xs i = Inr (take (nat i) xs @ drop (Suc (nat i)) xs)"
  by (simp add: py_pop_def py_norm_index_def)

lemma entry_matches_setIsRemoved [simp]:
  "entry_matches m name (setIsRemoved r s) = entry_matches m name s"
  by (auto simp: entry_matches_def setIsRemoved_def getInterest_def fun_eq_iff)

lemma entry_matches_table_update [simp]:
  "entry_matches m name (s\<lparr>table := t\<rparr>) = entry_matches m name s"
  by (auto simp: entry_matches_def getInterest_def fun_eq_iff)

lemma has_id_setIsRemoved [simp]:
  "has_id pid (setIsRemoved r s) = has_id pid s"
  by (auto simp: has_id_def setIsRemoved_def getPendingInterestId_def fun_eq_iff)

lemma has_id_table_update [simp]:
  "has_id pid (s\<lparr>table := t\<rparr>) = has_id pid s"
  by (auto simp: has_id_def getPendingInterestId_def fun_eq_iff)

lemma mark_removed_Nil [simp]: "mark_removed [] h = h"
  by (simp add: mark_removed_def)

lemma mark_removed_upd:
  "mark_removed rs (h(r := (h r)\<lparr>isRemoved := True\<rparr>)) = mark_removed (rs @ [r]) h"
  by (auto simp: mark_removed_def fun_eq_iff)

lemma extract_loop_spec:
  "n \<le> length (table s) \<Longrightarrow>
   extract_loop m name (int n - 1) s es =
     (Inr (),
      s\<lparr>heap := mark_removed (filter (entry_matches m name s) (take n (table s))) (heap s),
        table := filter (\<lambda>r. \<not> entry_matches m name s r) (take n (table s)) @ drop n (table s)\<rparr>,
      es @ rev (filter (entry_matches m name s) (take n (table s))))"
proof (induction n arbitrary: s es)
  case 0
  then show ?case by (subst extract_loop.simps) simp
next
  case (Suc n)
  let ?t = "table s"
  let ?r = "?t ! n"
  from Suc.prems have n: "n < length ?t" by simp
  have get: "py_getitem ?t (int n) = Inr ?r"
    using n by (simp add: py_getitem_in_range)
  have pop: "py_pop ?t (int n) = Inr (take n ?t @ drop (Suc n) ?t)"
    using n by (simp add: py_pop_in_range)
  have tk: "take (Suc n) ?t = take n ?t @ [?r]"
    using n by (simp add: take_Suc_conv_app_nth)
  show ?case
  proof (cases "entry_matches m name s ?r")
    case True
    let ?s' = "setIsRemoved ?r (s\<lparr>table := take n ?t @ drop (Suc n) ?t\<rparr>)"
    have len: "n \<le> length (table ?s')" using n by (simp add: setIsRemoved_def)
    have tab: "table ?s' = take n ?t @ drop (Suc n) ?t" by (simp add: setIsRemoved_def)
    have tk': "take n (table ?s') = take n ?t" using n by (simp add: tab)
    have dr': "drop n (table ?s') = drop (Suc n) ?t" using n by (simp add: tab)
    have step: "extract_loop m name (int (Suc n) - 1) s es =
                extract_loop m name (int n - 1) ?s' (es @ [?r])"
      using True get pop by (subst extract_loop.simps) (simp add: entry_matches_def)
    have em: "entry_matches m name ?s' = entry_matches m name s" by simp
    have hp: "mark_removed rs (heap ?s') = mark_removed (rs @ [?r]) (heap s)" for rs
      by (simp add: setIsRemoved_def mark_removed_upd)
    show ?thesis
      unfolding step Suc.IH[OF len] tk' dr' tk em hp
      using True
      by (simp add: setIsRemoved_def)
  next
    case False
    have step: "extract_loop m name (int (Suc n) - 1) s es =
                extract_loop m name (int n - 1) s es"
      using False get by (subst extract_loop.simps) (simp add: entry_matches_def)
    have len: "n \<le> length (table s)" using n by simp
    have dr: "drop n ?t = ?r # drop (Suc n) ?t"
      using n by (simp add: Cons_nth_drop_Suc)
    show ?thesis
      unfolding step Suc.IH[OF len] tk
      using False by (simp add: dr)
  qed
qed

lemma remove_loop_spec:
  "n \<le> length (table s) \<Longrightarrow>
   remove_loop pid (int n - 1) s c =
     (Inr (c + int (length (filter (has_id pid s) (take n (table s))))),
      s\<lparr>heap := mark_removed (filter (has_id pid s) (take n (table s))) (heap s),
        table := filter (\<lambda>r. \<not> has_id pid s r) (take n (table s)) @ drop n (table s)\<rparr>)"
proof (induction n arbitrary: s c)
  case 0
  then show ?case by (subst remove_loop.simps) simp
next
  case (Suc n)
  let ?t = "table s"
  let ?r = "?t ! n"
  from Suc.prems have n: "n < length ?t" by simp
  have get: "py_getitem ?t (int n) = Inr ?r"
    using n by (simp add: py_getitem_in_range)
  have pop: "py_pop (table (setIsRemoved ?r s)) (int n) = Inr (take n ?t @ drop (Suc n) ?t)"
    using n by (simp add: py_pop_in_range setIsRemoved_def)
  have tk: "take (Suc n) ?t = take n ?t @ [?r]"
    using n by (simp add: take_Suc_conv_app_nth)
  show ?case
  proof (cases "has_id pid s ?r")
    case True
    let ?s' = "(setIsRemoved ?r s)\<lparr>table := take n ?t @ drop (Suc n) ?t\<rparr>"
    have len: "n \<le> length (table ?s')" using n by simp
    have tk': "take n (table ?s') = take n ?t" using n by simp
    have dr': "drop n (table ?s') = drop (Suc n) ?t" using n by simp
    have step: "remove_loop pid (int (Suc n) - 1) s c =
                remove_loop pid (int n - 1) ?s' (c + 1)"
      using True get pop by (subst remove_loop.simps) (simp add: has_id_def)
    have hid: "has_id pid ?s' = has_id pid s" by simp
    have hp: "mark_removed rs (heap ?s') = mark_removed (rs @ [?r]) (heap s)" for rs
      by (simp add: setIsRemoved_def mark_removed_upd)
    show ?thesis
      unfolding step Suc.IH[OF len] tk' dr' tk hid hp
      using True
      by (simp add: setIsRemoved_def)
  next
    case False
    have step: "remove_loop pid (int (Suc n) - 1) s c =
                remove_loop pid (int n - 1) s c"
      using False get by (subst remove_loop.simps) (simp add: has_id_def)
    have len: "n \<le> length (table s)" using n by simp
    have dr: "drop n ?t = ?r # drop (Suc n) ?t"
      using n by (simp add: Cons_nth_drop_Suc)
    show ?thesis
      unfolding step Suc.IH[OF len] tk
      using False by (simp add: dr)
  qed
qed

text \<open>Both methods in closed form: the loop has gone through the whole table.\<close>

lemma extract_eq:
  "extractEntriesForExpressedInterest m name es s =
     (Inr (),
      s\<lparr>heap := mark_removed (filter (entry_matches m name s) (table s)) (heap s),
        table := filter (\<lambda>r. \<not> entry_matches m name s r) (table s)\<rparr>,
      es @ rev (filter (entry_matches m name s) (table s)))"
  using extract_loop_spec [of "length (table s)" s m name es]
  by (simp add: extractEntriesForExpressedInterest_def)

lemma remove_loop_eq:
  "remove_loop pid (int (length (table s)) - 1) s 0 =
     (Inr (int (length (filter (has_id pid s) (table s)))),
      s\<lparr>heap := mark_removed (filter (has_id pid s) (table s)) (heap s),
        table := filter (\<lambda>r. \<not> has_id pid s r) (table s)\<rparr>)"
  using remove_loop_spec [of "length (table s)" s pid 0]
  by simp

lemma removePendingInterest_found:
  "\<exists>r \<in> set (table s). has_id pid s r \<Longrightarrow>
   removePendingInterest pid s =
     (Inr (),
      s\<lparr>heap := mark_removed (filter (has_id pid s) (table s)) (heap s),
        table := filter (\<lambda>r. \<not> has_id pid s r) (table s)\<rparr>)"
  by (auto simp: removePendingInterest_def remove_loop_eq filter_empty_conv)

lemma removePendingInterest_not_found:
  "\<forall>r \<in> set (table s). \<not> has_id pid s r \<Longrightarrow>
   removePendingInterest pid s =
     (case py_add (PyStr ''removePendingInterest: Didn't find pendingInterestId '') pid of
        Inl e \<Rightarrow> (Inl e, s)
      | Inr msg \<Rightarrow> (Inr (), logger_debug msg s))"
proof -
  assume a: "\<forall>r \<in> set (table s). \<not> has_id pid s r"
  then have f: "filter (has_id pid s) (table s) = []"
    by (simp add: filter_empty_conv)
  have g: "filter (\<lambda>r. \<not> has_id pid s r) (table s) = table s"
    using a by (simp add: filter_id_conv)
  have "remove_loop pid (int (length (table s)) - 1) s 0 = (Inr 0, s)"
    by (simp add: remove_loop_eq f g)
  then show ?thesis
    by (simp add: removePendingInterest_def)
qed

lemma py_index_absent: "x \<notin> set xs \<Longrightarrow> py_index xs x = Inl ValueError"
  by (induction xs) auto

lemma py_index_present:
  "x \<in> set xs \<Longrightarrow>
   \<exists>k. py_index xs x = Inr (int k) \<and> k < length xs \<and>
       take k xs @ drop (Suc k) xs = remove1 x xs"
proof (induction xs)
  case Nil
  then show ?case by simp
next
  case (Cons y ys)
  show ?case
  proof (cases "y = x")
    case True
    then show ?thesis by (intro exI[of _ 0]) simp
  next
    case False
    with Cons obtain k where k: "py_index ys x = Inr (int k)" "k < length ys"
      "take k ys @ drop (Suc k) ys = remove1 x ys" by auto
    show ?thesis
      using False k by (intro exI[of _ "Suc k"]) (simp add: add.commute)
  qed
qed

lemma removeEntry_eq:
  "removeEntry r s =
     (if getIsRemoved r s \<or> r \<notin> set (table s) then (Inr False, s)
      else (Inr True, (setIsRemoved r s)\<lparr>table := remove1 r (table s)\<rparr>))"
proof (cases "getIsRemoved r s \<or> r \<notin> set (table s)")
  case True
  then show ?thesis
    by (auto simp: removeEntry_def py_index_absent)
next
  case False
  then have "r \<in> set (table s)" by simp
  from py_index_present [OF this] obtain k where
    k: "py_index (table s) r = Inr (int k)" "k < length (table s)"
       "take k (table s) @ drop (Suc k) (table s) = remove1 r (table s)" by blast
  have "py_pop (table (setIsRemoved r s)) (int k) = Inr (remove1 r (table s))"
    using k by (simp add: py_pop_in_range setIsRemoved_def)
  with False k show ?thesis
    by (simp add: removeEntry_def)
qed

section \<open>The invariant and the removed flag along runs\<close>

lemma pit_inv_iff:
  "pit_inv s \<longleftrightarrow>
     distinct (table s) \<and> (\<forall>r \<in> set (table s). r < used s) \<and>
     (\<forall>r. r < used s \<longrightarrow> getIsRemoved r s = (r \<notin> set (table s)))"
  by (auto simp: pit_inv_def list_all_iff)

lemma pit_inv_init: "pit_inv (PendingInterestTable free w)"
  by (simp add: pit_inv_iff PendingInterestTable_def)

lemma pit_inv_add: "pit_inv s \<Longrightarrow> pit_inv (snd (add pid i od ot s))"
  by (auto simp: pit_inv_iff add_def Let_def getIsRemoved_def Entry_def less_Suc_eq)

lemma pit_inv_filter:
  "pit_inv s \<Longrightarrow>
   pit_inv (s\<lparr>heap := mark_removed (filter P (table s)) (heap s),
              table := filter (\<lambda>r. \<not> P r) (table s)\<rparr>)"
  by (auto simp: pit_inv_iff getIsRemoved_def mark_removed_def)

lemma pit_inv_logged [simp]: "pit_inv (s\<lparr>logged := l\<rparr>) = pit_inv s"
  by (simp add: pit_inv_def getIsRemoved_def)

lemma pit_inv_world [simp]: "pit_inv (s\<lparr>world := l\<rparr>) = pit_inv s"
  by (simp add: pit_inv_def getIsRemoved_def)

lemma pit_inv_extract:
  "pit_inv s \<Longrightarrow> pit_inv (fst (snd (extractEntriesForExpressedInterest m name es s)))"
  by (simp add: extract_eq pit_inv_filter)

text \<open>
  What \<^verbatim>\<open>removePendingInterest\<close> leaves behind, whether or not it found the id and
  whether or not building the message raised.
\<close>

lemma removePendingInterest_state:
  "\<exists>l. snd (removePendingInterest pid s) =
     s\<lparr>heap := mark_removed (filter (has_id pid s) (table s)) (heap s),
       table := filter (\<lambda>r. \<not> has_id pid s r) (table s),
       logged := l\<rparr>"
proof (cases "\<exists>r \<in> set (table s). has_id pid s r")
  case True
  show ?thesis
    unfolding removePendingInterest_found [OF True]
    by (intro exI[of _ "logged s"]) simp
next
  case False
  then have nf: "\<forall>r \<in> set (table s). \<not> has_id pid s r" by simp
  then have f: "filter (has_id pid s) (table s) = []"
    by (simp add: filter_empty_conv)
  have g: "filter (\<lambda>r. \<not> has_id pid s r) (table s) = table s"
    using nf by (simp add: filter_id_conv)
  show ?thesis
    unfolding removePendingInterest_not_found [OF nf] f g
    by (cases "py_add (PyStr ''removePendingInterest: Didn't find pendingInterestId '') pid")
       (auto simp: logger_debug_def intro: exI[of _ "logged s"])
qed

lemma pit_inv_removePendingInterest:
  "pit_inv s \<Longrightarrow> pit_inv (snd (removePendingInterest pid s))"
proof -
  assume inv: "pit_inv s"
  obtain l where "snd (removePendingInterest pid s) =
     s\<lparr>heap := mark_removed (filter (has_id pid s) (table s)) (heap s),
       table := filter (\<lambda>r. \<not> has_id pid s r) (table s),
       logged := l\<rparr>"
    using removePendingInterest_state by blast
  then show ?thesis
    using pit_inv_filter [OF inv, of "has_id pid s"] by simp
qed

lemma pit_inv_removeEntry: "pit_inv s \<Longrightarrow> pit_inv (snd (removeEntry r s))"
  by (auto simp: removeEntry_eq pit_inv_iff setIsRemoved_def getIsRemoved_def)

lemma pit_inv_callTimeout: "pit_inv s \<Longrightarrow> pit_inv (snd (callTimeout r s))"
  by (auto simp: callTimeout_def split: option.splits prod.splits)

lemma pit_inv_step: "pit_inv s \<Longrightarrow> pit_inv (pit_step m c s)"
  by (cases c)
     (simp_all add: pit_inv_add pit_inv_extract pit_inv_removePendingInterest
        pit_inv_removeEntry pit_inv_callTimeout)

lemma pit_inv_run: "pit_inv s \<Longrightarrow> pit_inv (pit_run m cs s)"
  by (induction cs arbitrary: s) (simp_all add: pit_inv_step)

text \<open>Once set, the flag of an entry that exists stays set, whatever is called.\<close>

lemma removed_step:
  "r < used s \<Longrightarrow> getIsRemoved r s \<Longrightarrow>
   r < used (pit_step m c s) \<and> getIsRemoved r (pit_step m c s)"
proof (cases c)
  case (CallAdd pid i od ot)
  assume "r < used s" "getIsRemoved r s"
  then show ?thesis
    by (simp add: CallAdd add_def Let_def getIsRemoved_def)
next
  case (CallExtract name es)
  assume "r < used s" "getIsRemoved r s"
  then show ?thesis
    by (simp add: CallExtract extract_eq getIsRemoved_def mark_removed_def)
next
  case (CallRemovePendingInterest pid)
  assume a: "r < used s" "getIsRemoved r s"
  obtain l where "snd (removePendingInterest pid s) =
     s\<lparr>heap := mark_removed (filter (has_id pid s) (table s)) (heap s),
       table := filter (\<lambda>r. \<not> has_id pid s r) (table s),
       logged := l\<rparr>"
    using removePendingInterest_state by blast
  with a show ?thesis
    by (simp add: CallRemovePendingInterest getIsRemoved_def mark_removed_def)
next
  case (CallRemoveEntry r')
  assume "r < used s" "getIsRemoved r s"
  then show ?thesis
    by (simp add: CallRemoveEntry removeEntry_eq getIsRemoved_def setIsRemoved_def)
next
  case (CallTimeout r')
  assume "r < used s" "getIsRemoved r s"
  then show ?thesis
    by (auto simp: CallTimeout callTimeout_def getIsRemoved_def split: option.splits prod.splits)
qed

lemma removed_run:
  "r < used s \<Longrightarrow> getIsRemoved r s \<Longrightarrow>
   r < used (pit_run m cs s) \<and> getIsRemoved r (pit_run m cs s)"
proof (induction cs arbitrary: s)
  case Nil
  then show ?case by simp
next
  case (Cons c cs)
  from removed_step [OF Cons.prems, of m c]
  show ?case using Cons.IH by simp
qed

lemma removeEntry_removed: "getIsRemoved r s \<Longrightarrow> removeEntry r s = (Inr False, s)"
  by (simp add: removeEntry_eq)

section \<open>Extraction\<close>

lemma upt_add_Suc: "[n..<Suc (n + k)] = n # [Suc n..<Suc (n + k)]"
  by (rule upt_conv_Cons) simp

lemma add_all_table:
  "table (add_all args s) = table s @ [used s..<used s + length args] \<and>
   used (add_all args s) = used s + length args"
proof (induction args arbitrary: s)
  case Nil
  then show ?case by simp
next
  case (Cons a args)
  obtain pid i od ot where a: "a = (pid, i, od, ot)" by (cases a) auto
  let ?s1 = "snd (add pid i od ot s)"
  have t1: "table ?s1 = table s @ [used s]" and u1: "used ?s1 = Suc (used s)"
    by (simp_all add: add_def Let_def)
  show ?case
    using Cons.IH [of ?s1] by (simp add: a t1 u1 upt_add_Suc del: upt_Suc)
qed

lemma add_all_interest_old:
  "r < used s \<Longrightarrow> heap (add_all args s) r = heap s r"
proof (induction args arbitrary: s)
  case Nil
  then show ?case by simp
next
  case (Cons a args)
  obtain pid i od ot where a: "a = (pid, i, od, ot)" by (cases a) auto
  let ?s1 = "snd (add pid i od ot s)"
  have "r < used ?s1" using Cons.prems by (simp add: add_def Let_def)
  from Cons.IH [OF this] show ?case
    using Cons.prems by (simp add: a add_def Let_def)
qed

lemma add_all_interests:
  "map (\<lambda>r. getInterest r (add_all args s)) [used s..<used s + length args] =
   map (\<lambda>a. fst (snd a)) args"
proof (induction args arbitrary: s)
  case Nil
  then show ?case by simp
next
  case (Cons a args)
  obtain pid i od ot where a: "a = (pid, i, od, ot)" by (cases a) auto
  let ?s1 = "snd (add pid i od ot s)"
  have u1: "used ?s1 = Suc (used s)" by (simp add: add_def Let_def)
  have "heap (add_all args ?s1) (used s) = heap ?s1 (used s)"
    by (rule add_all_interest_old) (simp add: u1)
  then have hd: "getInterest (used s) (add_all args ?s1) = i"
    by (simp add: getInterest_def add_def Let_def Entry_def)
  show ?case
    using Cons.IH [of ?s1] by (simp add: a upt_add_Suc u1 hd del: upt_Suc)
qed

lemma pit_inv_add_all: "pit_inv s \<Longrightarrow> pit_inv (add_all args s)"
proof (induction args arbitrary: s)
  case Nil
  then show ?case by simp
next
  case (Cons a args)
  obtain pid i od ot where a: "a = (pid, i, od, ot)" by (cases a) auto
  show ?case using Cons.IH [OF pit_inv_add [OF Cons.prems]] by (simp add: a)
qed

text \<open>
  C3. Let the table be the one reached from the empty table by any sequence of \<^verbatim>\<open>add\<close>
  calls, so that it holds the entries in the order of the calls, each with the interest
  of its call. For every name, \<^verbatim>\<open>extractEntriesForExpressedInterest(name, out)\<close> returns
  normally; it appends to \<open>out\<close> exactly the entries whose interest matches the name,
  each once, the most recently added first; every appended entry has left the table and
  has its flag set; the entries that do not match stay in the table, in their order,
  and nothing else of the state changes.
\<close>

theorem extract_after_adds:
  "(let s = add_all args (PendingInterestTable free w);
        ms = filter (entry_matches m name s) (table s);
        s' = s\<lparr>heap := mark_removed ms (heap s),
               table := filter (\<lambda>r. \<not> entry_matches m name s r) (table s)\<rparr>
    in table s = [0..<length args] \<and>
       map (\<lambda>r. getInterest r s) (table s) = map (\<lambda>a. fst (snd a)) args \<and>
       extractEntriesForExpressedInterest m name out s = (Inr (), s', out @ rev ms) \<and>
       distinct ms \<and>
       list_all (\<lambda>r. getIsRemoved r s') ms \<and>
       list_all (\<lambda>r. r \<notin> set (table s')) ms)"
proof -
  let ?s = "add_all args (PendingInterestTable free w)"
  have t: "table ?s = [0..<length args]"
    using add_all_table [of args "PendingInterestTable free w"]
    by (simp add: PendingInterestTable_def)
  have i: "map (\<lambda>r. getInterest r ?s) (table ?s) = map (\<lambda>a. fst (snd a)) args"
    using add_all_interests [of args "PendingInterestTable free w"]
    by (simp add: t) (simp add: PendingInterestTable_def)
  have d: "distinct (filter (entry_matches m name ?s) (table ?s))"
    by (simp add: t)
  show ?thesis
    unfolding Let_def
    using t i d
    by (simp add: extract_eq list_all_iff getIsRemoved_def mark_removed_def)
qed

text \<open>
  The scenario of the spec: entries 1, 2, 3 for /a/b, /a/c and /a/b/d; extracting for
  the name /a/b/d gives entry 3, then entry 1, and leaves entry 2.
\<close>

theorem extract_after_adds_witness:
  "snd (snd (extractEntriesForExpressedInterest prefix_match [''a'', ''b'', ''d''] []
     (add_all [(PyInt 1, [''a'', ''b''], (), None), (PyInt 2, [''a'', ''c''], (), None),
               (PyInt 3, [''a'', ''b'', ''d''], (), None)]
        (PendingInterestTable (\<lambda>_. Entry PyNone [] () None) ())))) = [2, 0] \<and>
   table (fst (snd (extractEntriesForExpressedInterest prefix_match [''a'', ''b'', ''d''] []
     (add_all [(PyInt 1, [''a'', ''b''], (), None), (PyInt 2, [''a'', ''c''], (), None),
               (PyInt 3, [''a'', ''b'', ''d''], (), None)]
        (PendingInterestTable (\<lambda>_. Entry PyNone [] () None) ()))))) = [1]"
  using extract_after_adds [of "[(PyInt 1, [''a'', ''b''], (), None), (PyInt 2, [''a'', ''c''], (), None),
               (PyInt 3, [''a'', ''b'', ''d''], (), None)]" "\<lambda>_. Entry PyNone [] () None" "()"
               prefix_match "[''a'', ''b'', ''d'']" "[]"]
  by (simp add: Let_def entry_matches_def prefix_match_def upt_rec add_def PendingInterestTable_def getInterest_def Entry_def)

section \<open>Removal by id\<close>

text \<open>
  When no entry has the id, the message for the log is built from a string and the id.
  For an integer id the \<^verbatim>\<open>+\<close> raises, before anything is logged; for a string id the
  message is logged at DEBUG level and the call returns.
\<close>

lemma removePendingInterest_int_not_found:
  "\<forall>r \<in> set (table s). \<not> has_id (PyInt n) s r \<Longrightarrow>
   removePendingInterest (PyInt n) s = (Inl TypeError, s)"
  by (simp add: removePendingInterest_not_found)

lemma removePendingInterest_str_not_found:
  "\<forall>r \<in> set (table s). \<not> has_id (PyStr n) s r \<Longrightarrow>
   removePendingInterest (PyStr n) s =
     (Inr (), logger_debug (PyStr (''removePendingInterest: Didn't find pendingInterestId '' @ n)) s)"
  by (simp add: removePendingInterest_not_found)

text \<open>
  C2. \<^verbatim>\<open>removePendingInterest(id)\<close> removes and marks every entry with the id
  (\<open>removePendingInterest_found\<close>), and when no entry has the id it should log and
  return. With the integer ids of this library it raises instead: on a table that holds
  one entry, of id 1, \<^verbatim>\<open>removePendingInterest(2)\<close> ends in a TypeError, the table
  untouched and nothing logged.
\<close>

theorem removePendingInterest_unknown_int_id_raises:
  "removePendingInterest (PyInt 2)
     (snd (add (PyInt 1) [''a'', ''b''] () None
        (PendingInterestTable (\<lambda>_. Entry PyNone [] () None) ()))) =
   (Inl TypeError,
    snd (add (PyInt 1) [''a'', ''b''] () None
        (PendingInterestTable (\<lambda>_. Entry PyNone [] () None) ())))"
  by (rule removePendingInterest_int_not_found)
     (simp add: add_def Let_def PendingInterestTable_def has_id_def getPendingInterestId_def
        Entry_def)

section \<open>Removal by entry\<close>

lemma removeEntry_gone:
  "r < used s \<Longrightarrow> getIsRemoved r s \<Longrightarrow> fst (removeEntry r (pit_run m cs s)) = Inr False"
  using removed_run [of r s m cs] by (simp add: removeEntry_removed)

text \<open>
  C4. Let \<open>r\<close> be an entry that \<^verbatim>\<open>add\<close> created, in a state that satisfies the invariant
  (every state the table's methods reach does). \<^verbatim>\<open>removeEntry(r)\<close> never raises; it
  returns True exactly when \<open>r\<close> is still in the table, and then \<open>r\<close> has left the table,
  which is one shorter, and has its flag set. After that call, and likewise after an
  extraction for a name that \<open>r\<close> matches or a \<^verbatim>\<open>removePendingInterest\<close> of its id,
  \<^verbatim>\<open>removeEntry(r)\<close> returns False, now and after any further calls on the table. The
  entry that \<^verbatim>\<open>add\<close> returns is such an \<open>r\<close>, and it is in the table.
\<close>

theorem removeEntry_true_once:
  assumes "pit_inv s" and "r < used s"
  shows "fst (removeEntry r s) = Inr (r \<in> set (table s)) \<and>
         getIsRemoved r (snd (removeEntry r s)) \<and>
         r \<notin> set (table (snd (removeEntry r s))) \<and>
         length (table (snd (removeEntry r s))) =
           (if r \<in> set (table s) then length (table s) - 1 else length (table s)) \<and>
         (\<forall>cs. fst (removeEntry r (pit_run m cs (snd (removeEntry r s)))) = Inr False) \<and>
         (\<forall>name es cs. entry_matches m name s r \<longrightarrow>
            fst (removeEntry r (pit_run m cs
              (fst (snd (extractEntriesForExpressedInterest m name es s))))) = Inr False) \<and>
         (\<forall>cs. fst (removeEntry r (pit_run m cs
              (snd (removePendingInterest (getPendingInterestId r s) s)))) = Inr False) \<and>
         fst (add pid i od ot s) < used (snd (add pid i od ot s)) \<and>
         fst (add pid i od ot s) \<in> set (table (snd (add pid i od ot s))) \<and>
         fst (removeEntry (fst (add pid i od ot s)) (snd (add pid i od ot s))) = Inr True"
proof -
  from assms have mem: "getIsRemoved r s = (r \<notin> set (table s))"
    and dist: "distinct (table s)"
    by (simp_all add: pit_inv_iff)
  have a: "fst (removeEntry r s) = Inr (r \<in> set (table s))"
    using mem by (simp add: removeEntry_eq)
  have b: "getIsRemoved r (snd (removeEntry r s))"
    using mem by (simp add: removeEntry_eq getIsRemoved_def setIsRemoved_def)
  have c: "r \<notin> set (table (snd (removeEntry r s)))"
    using mem dist by (simp add: removeEntry_eq setIsRemoved_def)
  have d: "length (table (snd (removeEntry r s))) =
           (if r \<in> set (table s) then length (table s) - 1 else length (table s))"
    using mem by (simp add: removeEntry_eq setIsRemoved_def length_remove1)
  have u: "r < used (snd (removeEntry r s))"
    using assms by (simp add: removeEntry_eq setIsRemoved_def)
  have e: "\<forall>cs. fst (removeEntry r (pit_run m cs (snd (removeEntry r s)))) = Inr False"
    using removeEntry_gone [OF u b, of m] by simp
  have f: "fst (removeEntry r (pit_run m cs
              (fst (snd (extractEntriesForExpressedInterest m name es s))))) = Inr False"
    if "entry_matches m name s r" for name es cs
  proof (rule removeEntry_gone)
    show "r < used (fst (snd (extractEntriesForExpressedInterest m name es s)))"
      using assms by (simp add: extract_eq)
    show "getIsRemoved r (fst (snd (extractEntriesForExpressedInterest m name es s)))"
      using that mem by (auto simp: extract_eq getIsRemoved_def mark_removed_def)
  qed
  have g: "fst (removeEntry r (pit_run m cs
              (snd (removePendingInterest (getPendingInterestId r s) s)))) = Inr False" for cs
  proof (rule removeEntry_gone)
    obtain l where st: "snd (removePendingInterest (getPendingInterestId r s) s) =
       s\<lparr>heap := mark_removed (filter (has_id (getPendingInterestId r s) s) (table s)) (heap s),
         table := filter (\<lambda>r'. \<not> has_id (getPendingInterestId r s) s r') (table s),
         logged := l\<rparr>"
      using removePendingInterest_state by blast
    show "r < used (snd (removePendingInterest (getPendingInterestId r s) s))"
      using assms by (simp add: st)
    show "getIsRemoved r (snd (removePendingInterest (getPendingInterestId r s) s))"
      using mem by (auto simp: st getIsRemoved_def mark_removed_def has_id_def)
  qed
  have h: "fst (add pid i od ot s) < used (snd (add pid i od ot s)) \<and>
         fst (add pid i od ot s) \<in> set (table (snd (add pid i od ot s))) \<and>
         fst (removeEntry (fst (add pid i od ot s)) (snd (add pid i od ot s))) = Inr True"
    by (simp add: add_def Let_def removeEntry_eq getIsRemoved_def Entry_def)
  show ?thesis
    using a b c d e f g h by blast
qed

text \<open>
  The scenario of the spec: one entry, of id 5; the first \<^verbatim>\<open>removeEntry\<close> returns True
  and empties the table, the second returns False.
\<close>

theorem removeEntry_true_once_witness:
  "pit_inv (snd (add (PyInt 5) [''a''] () None (PendingInterestTable (\<lambda>_. Entry PyNone [] () None) ()))) \<and>
   (0::nat) < used (snd (add (PyInt 5) [''a''] () None (PendingInterestTable (\<lambda>_. Entry PyNone [] () None) ()))) \<and>
   fst (removeEntry 0
     (snd (add (PyInt 5) [''a''] () None (PendingInterestTable (\<lambda>_. Entry PyNone [] () None) ())))) = Inr True \<and>
   length (table (snd (removeEntry 0
     (snd (add (PyInt 5) [''a''] () None (PendingInterestTable (\<lambda>_. Entry PyNone [] () None) ())))))) = 0 \<and>
   fst (removeEntry 0 (snd (removeEntry 0
     (snd (add (PyInt 5) [''a''] () None (PendingInterestTable (\<lambda>_. Entry PyNone [] () None) ())))))) = Inr False"
proof -
  let ?s = "snd (add (PyInt 5) [''a''] () None (PendingInterestTable (\<lambda>_. Entry PyNone [] () None) ()))"
  have h: "pit_inv ?s"
    by (simp add: pit_inv_def add_def Let_def PendingInterestTable_def Entry_def getIsRemoved_def)
  have u: "0 < used ?s"
    by (simp add: add_def Let_def PendingInterestTable_def)
  have t: "table ?s = [0]"
    by (simp add: add_def Let_def PendingInterestTable_def)
  from removeEntry_true_once [OF h u, of prefix_match]
  have "fst (removeEntry 0 ?s) = Inr (0 \<in> set (table ?s))"
    and "length (table (snd (removeEntry 0 ?s))) =
           (if 0 \<in> set (table ?s) then length (table ?s) - 1 else length (table ?s))"
    and "fst (removeEntry 0 (pit_run prefix_match [] (snd (removeEntry 0 ?s)))) = Inr False"
    by blast+
  then show ?thesis
    using h u by (simp add: t)
qed

section \<open>Timeouts\<close>



text \<open>\<^verbatim>\<open>add\<close> and \<^verbatim>\<open>callTimeout\<close> leave the entries that exist and their places alone.\<close>

lemma step_not_removing:
  "\<not> removing c \<Longrightarrow>
   (\<exists>new. table (pit_step m c s) = table s @ new) \<and> used s \<le> used (pit_step m c s) \<and>
   (\<forall>r<used s. heap (pit_step m c s) r = heap s r)"
  by (cases c) (auto simp: add_def Let_def callTimeout_def split: option.splits prod.splits)

lemma run_not_removing:
  "list_all (\<lambda>c. \<not> removing c) cs \<Longrightarrow>
   (\<exists>new. table (pit_run m cs s) = table s @ new) \<and> used s \<le> used (pit_run m cs s) \<and>
   (\<forall>r<used s. heap (pit_run m cs s) r = heap s r)"
proof (induction cs arbitrary: s)
  case Nil
  then show ?case by simp
next
  case (Cons c cs)
  let ?s1 = "pit_step m c s"
  from Cons.prems have c: "\<not> removing c" and cs: "list_all (\<lambda>c. \<not> removing c) cs"
    by simp_all
  from step_not_removing [OF c, of m s] obtain new1 where
    s1: "table ?s1 = table s @ new1" "used s \<le> used ?s1" "\<forall>r<used s. heap ?s1 r = heap s r"
    by blast
  from Cons.IH [OF cs, of ?s1] obtain new2 where
    s2: "table (pit_run m cs ?s1) = table ?s1 @ new2" "used ?s1 \<le> used (pit_run m cs ?s1)"
        "\<forall>r<used ?s1. heap (pit_run m cs ?s1) r = heap ?s1 r"
    by blast
  have "table (pit_run m (c # cs) s) = table s @ (new1 @ new2)"
    using s1 s2 by simp
  moreover have "used s \<le> used (pit_run m (c # cs) s)"
    using s1 s2 by simp
  moreover have "\<forall>r<used s. heap (pit_run m (c # cs) s) r = heap s r"
    using s1 s2 by auto
  ultimately show ?case by blast
qed

text \<open>
  C10. \<^verbatim>\<open>callTimeout\<close> changes neither an entry nor the table: the store of entries, with
  every flag, and the table are the same before and after, with or without an
  \<^verbatim>\<open>onTimeout\<close>, whether it raises or not. Marking and removal come from the three
  removing methods only: along a run of calls none of which is
  \<^verbatim>\<open>extractEntriesForExpressedInterest\<close>, \<^verbatim>\<open>removePendingInterest\<close> or \<^verbatim>\<open>removeEntry\<close>, the
  table only grows at its end and every entry that existed keeps its flag.
\<close>

theorem callTimeout_frame:
  assumes "list_all (\<lambda>c. \<not> removing c) cs"
  shows "heap (snd (callTimeout r s)) = heap s \<and>
         table (snd (callTimeout r s)) = table s \<and>
         used (snd (callTimeout r s)) = used s \<and>
         (\<forall>r'. getIsRemoved r' (snd (callTimeout r s)) = getIsRemoved r' s) \<and>
         take (length (table s)) (table (pit_run m cs s)) = table s \<and>
         list_all (\<lambda>r'. getIsRemoved r' (pit_run m cs s) = getIsRemoved r' s) [0..<used s]"
proof -
  have a: "heap (snd (callTimeout r s)) = heap s \<and>
         table (snd (callTimeout r s)) = table s \<and>
         used (snd (callTimeout r s)) = used s"
    by (auto simp: callTimeout_def split: option.splits prod.splits)
  from run_not_removing [OF assms, of m s] obtain new where
    n: "table (pit_run m cs s) = table s @ new"
       "\<forall>r<used s. heap (pit_run m cs s) r = heap s r" by blast
  show ?thesis
    using a n by (simp add: getIsRemoved_def list_all_iff)
qed

text \<open>
  An entry whose \<^verbatim>\<open>onTimeout\<close> raises: after \<^verbatim>\<open>callTimeout\<close> on it, an \<^verbatim>\<open>add\<close> and a
  \<^verbatim>\<open>callTimeout\<close> on the new entry, it is still first in the table and not removed.
\<close>

theorem callTimeout_frame_witness:
  "list_all (\<lambda>c. \<not> removing c)
     [CallTimeout 0, CallAdd (PyInt 2) [''a'', ''c''] () None, CallTimeout 1 ::
        (string list, unit, string list, nat) pit_call] \<and>
   table (pit_run prefix_match
     [CallTimeout 0, CallAdd (PyInt 2) [''a'', ''c''] () None, CallTimeout 1]
     (snd (add (PyInt 1) [''a'', ''b''] () (Some (\<lambda>i w. (Some (Raised ''late''), Suc w)))
        (PendingInterestTable (\<lambda>_. Entry PyNone [] () None) 0)))) = [0, 1] \<and>
   \<not> getIsRemoved 0 (pit_run prefix_match
     [CallTimeout 0, CallAdd (PyInt 2) [''a'', ''c''] () None, CallTimeout 1]
     (snd (add (PyInt 1) [''a'', ''b''] () (Some (\<lambda>i w. (Some (Raised ''late''), Suc w)))
        (PendingInterestTable (\<lambda>_. Entry PyNone [] () None) 0))))"
  using callTimeout_frame [of "[CallTimeout 0, CallAdd (PyInt 2) [''a'', ''c''] () None, CallTimeout 1]"
     0 "snd (add (PyInt 1) [''a'', ''b''] () (Some (\<lambda>i w. (Some (Raised ''late''), Suc w)))
        (PendingInterestTable (\<lambda>_. Entry PyNone [] () None) 0))" prefix_match]
  by (simp add: add_def Let_def PendingInterestTable_def callTimeout_def Entry_def getIsRemoved_def)

section \<open>The invariant of the table\<close>

text \<open>
  C6. The invariant (no entry twice in the table; only created entries in the table;
  a created entry has its flag set exactly when it is not in the table) holds for the
  empty table and is kept by \<^verbatim>\<open>add\<close>, \<^verbatim>\<open>extractEntriesForExpressedInterest\<close>,
  \<^verbatim>\<open>removePendingInterest\<close> and \<^verbatim>\<open>removeEntry\<close>. After an extraction every extracted
  entry has its flag set and no entry still in the table has.
\<close>

theorem table_invariant_kept:
  assumes "pit_inv s"
  shows "pit_inv (PendingInterestTable free w) \<and>
         pit_inv (snd (add pid i od ot s)) \<and>
         pit_inv (fst (snd (extractEntriesForExpressedInterest m name es s))) \<and>
         pit_inv (snd (removePendingInterest pid' s)) \<and>
         pit_inv (snd (removeEntry r s)) \<and>
         list_all (\<lambda>e. getIsRemoved e (fst (snd (extractEntriesForExpressedInterest m name es s))))
           (drop (length es) (snd (snd (extractEntriesForExpressedInterest m name es s)))) \<and>
         list_all (\<lambda>e. \<not> getIsRemoved e (fst (snd (extractEntriesForExpressedInterest m name es s))))
           (table (fst (snd (extractEntriesForExpressedInterest m name es s)))) \<and>
         list_all (\<lambda>e. \<not> getIsRemoved e s) (table s) \<and>
         list_all (\<lambda>e. e \<in> set (table s) \<or> getIsRemoved e s) [0..<used s]"
proof -
  have x: "list_all (\<lambda>e. getIsRemoved e (fst (snd (extractEntriesForExpressedInterest m name es s))))
           (drop (length es) (snd (snd (extractEntriesForExpressedInterest m name es s))))"
    by (simp add: extract_eq list_all_iff getIsRemoved_def mark_removed_def)
  have y: "list_all (\<lambda>e. \<not> getIsRemoved e (fst (snd (extractEntriesForExpressedInterest m name es s))))
           (table (fst (snd (extractEntriesForExpressedInterest m name es s))))"
    using assms
    by (auto simp: extract_eq list_all_iff getIsRemoved_def mark_removed_def pit_inv_iff)
  have z: "list_all (\<lambda>e. \<not> getIsRemoved e s) (table s) \<and>
         list_all (\<lambda>e. e \<in> set (table s) \<or> getIsRemoved e s) [0..<used s]"
    using assms by (auto simp: list_all_iff pit_inv_iff)
  show ?thesis
    using assms x y z
    by (simp add: pit_inv_init pit_inv_add pit_inv_extract pit_inv_removePendingInterest
          pit_inv_removeEntry)
qed

text \<open>The invariant on the table of the three entries above, and after each removal.\<close>

theorem table_invariant_kept_witness:
  "pit_inv (add_all [(PyInt 1, [''a'', ''b''], (), None), (PyInt 2, [''a'', ''c''], (), None),
               (PyInt 3, [''a'', ''b'', ''d''], (), None)]
        (PendingInterestTable (\<lambda>_. Entry PyNone [] () None) ())) \<and>
   pit_inv (fst (snd (extractEntriesForExpressedInterest prefix_match [''a'', ''b'', ''d''] []
     (add_all [(PyInt 1, [''a'', ''b''], (), None), (PyInt 2, [''a'', ''c''], (), None),
               (PyInt 3, [''a'', ''b'', ''d''], (), None)]
        (PendingInterestTable (\<lambda>_. Entry PyNone [] () None) ()))))) \<and>
   pit_inv (snd (removePendingInterest (PyInt 2)
     (add_all [(PyInt 1, [''a'', ''b''], (), None), (PyInt 2, [''a'', ''c''], (), None),
               (PyInt 3, [''a'', ''b'', ''d''], (), None)]
        (PendingInterestTable (\<lambda>_. Entry PyNone [] () None) ())))) \<and>
   pit_inv (snd (removeEntry 1
     (add_all [(PyInt 1, [''a'', ''b''], (), None), (PyInt 2, [''a'', ''c''], (), None),
               (PyInt 3, [''a'', ''b'', ''d''], (), None)]
        (PendingInterestTable (\<lambda>_. Entry PyNone [] () None) ()))))"
proof -
  let ?s = "add_all [(PyInt 1, [''a'', ''b''], (), None), (PyInt 2, [''a'', ''c''], (), None),
               (PyInt 3, [''a'', ''b'', ''d''], (), None)]
        (PendingInterestTable (\<lambda>_. Entry PyNone [] () None) ())"
  have h: "pit_inv ?s"
    by (simp add: pit_inv_def add_def Let_def PendingInterestTable_def Entry_def
          getIsRemoved_def upt_rec)
  note k = table_invariant_kept [OF h, where m = prefix_match and name = "[''a'', ''b'', ''d'']"
      and es = "[]" and pid' = "PyInt 2" and r = 1 and free = "\<lambda>_. Entry PyNone [] () None"
      and w = "()" and pid = "PyInt 4" and i = "[''e'']" and od = "()" and ot = None]
  show ?thesis using h k by blast
qed

section \<open>The list handed to the extraction\<close>

text \<open>
  C9. \<^verbatim>\<open>extractEntriesForExpressedInterest(name, entries)\<close> only appends to the list it is
  given: whatever the list holds at the call, empty or not, is still its first part
  afterwards, unchanged, and the matches follow it.
\<close>

theorem extract_only_appends:
  "snd (snd (extractEntriesForExpressedInterest m name entries s)) =
     entries @ rev (filter (entry_matches m name s) (table s)) \<and>
   take (length entries) (snd (snd (extractEntriesForExpressedInterest m name entries s))) =
     entries"
  by (simp add: extract_eq)

text \<open>The three entries above, extracted into a list that already holds an entry 7.\<close>

theorem extract_only_appends_witness:
  "snd (snd (extractEntriesForExpressedInterest prefix_match [''a'', ''b'', ''d''] [7]
     (add_all [(PyInt 1, [''a'', ''b''], (), None), (PyInt 2, [''a'', ''c''], (), None),
               (PyInt 3, [''a'', ''b'', ''d''], (), None)]
        (PendingInterestTable (\<lambda>_. Entry PyNone [] () None) ())))) = [7, 2, 0]"
  using extract_only_appends [of prefix_match "[''a'', ''b'', ''d'']" "[7]"
     "add_all [(PyInt 1, [''a'', ''b''], (), None), (PyInt 2, [''a'', ''c''], (), None),
               (PyInt 3, [''a'', ''b'', ''d''], (), None)]
        (PendingInterestTable (\<lambda>_. Entry PyNone [] () None) ())"]
  by (simp add: entry_matches_def prefix_match_def add_def Let_def PendingInterestTable_def
        getInterest_def Entry_def)

section \<open>Shutdown\<close>

text \<open>
  \<^verbatim>\<open>shutdown\<close> compares \<^verbatim>\<open>self._loop\<close> with None and assigns nothing: whatever
  \<^verbatim>\<open>Face.shutdown\<close> does, the field is as before, and a later tick finds it set.
\<close>

lemma shutdown_keeps_loop: "loop (snd (shutdown Face_shutdown s)) = loop s"
  by (simp add: shutdown_def Let_def split: prod.splits)

lemma shutdown_then_ticks:
  "loop s = Some l \<Longrightarrow>
   armed (snd (processEventsCallback processEvents (snd (shutdown Face_shutdown s)))) =
     timers l @ [(10, ProcessEventsCallback)] \<and>
   (stopWhenTest s = None \<longrightarrow>
    armed (snd (stopWhenCallback (snd (shutdown Face_shutdown s)))) =
      timers l @ [(500, StopWhenCallback)])"
  by (auto simp: shutdown_def processEventsCallback_def stopWhenCallback_def armed_def
        call_later_def Let_def split: prod.splits)

text \<open>
  C1. After \<^verbatim>\<open>shutdown()\<close> neither service should arm itself again. In the code both
  do: for a face made on an idle loop and shut down at once, \<^verbatim>\<open>self._loop\<close> still is the
  loop, the next tick of \<^verbatim>\<open>_processEventsCallback\<close> sets a timer of 0.01 s for itself and
  the next tick of \<^verbatim>\<open>_stopWhenCallback\<close> one of 0.5 s.
\<close>

theorem shutdown_leaves_services_armed:
  "loop (snd (shutdown (\<lambda>nd w. (None, nd, w))
     (ThreadsafeFace \<lparr>ready = ([] :: unit callback list), timers = [], stopping = False\<rparr>
        \<lparr>lastEntryId = 0, pendingInterestTable = ()\<rparr> ()))) =
   Some \<lparr>ready = [StopWhenCallback, ProcessEventsCallback], timers = [], stopping = False\<rparr> \<and>
   armed (snd (processEventsCallback (\<lambda>nd w. (None, nd, w))
     (snd (shutdown (\<lambda>nd w. (None, nd, w))
       (ThreadsafeFace \<lparr>ready = ([] :: unit callback list), timers = [], stopping = False\<rparr>
          \<lparr>lastEntryId = 0, pendingInterestTable = ()\<rparr> ()))))) =
   [(10, ProcessEventsCallback)] \<and>
   armed (snd (stopWhenCallback
     (snd (shutdown (\<lambda>nd w. (None, nd, w))
       (ThreadsafeFace \<lparr>ready = ([] :: unit callback list), timers = [], stopping = False\<rparr>
          \<lparr>lastEntryId = 0, pendingInterestTable = ()\<rparr> ()))))) =
   [(500, StopWhenCallback)]"
  by (simp add: shutdown_def ThreadsafeFace_def processEventsCallback_def stopWhenCallback_def
        armed_def call_soon_def call_later_def Let_def)

section \<open>The termination predicate\<close>

text \<open>
  C7 as stated fails where it says that an error of the predicate is caught: a tick
  whose predicate raises ends with that exception, it does not return. (The predicate
  \<open>Pair (Inl e)\<close> raises \<open>e\<close> and leaves the application as it is.)
\<close>

theorem stopWhenCallback_raise_propagates:
  "fst (stopWhenCallback
     \<lparr>loop = Some \<lparr>ready = ([] :: unit callback list), timers = [], stopping = False\<rparr>,
      stopWhenTest = Some (Pair (Inl (Raised ''boom''))),
      node = \<lparr>lastEntryId = 0, pendingInterestTable = ()\<rparr>, app = ()\<rparr>) =
   Inl (Raised ''boom'') \<and>
   fst (stopWhenCallback
     \<lparr>loop = Some \<lparr>ready = ([] :: unit callback list), timers = [], stopping = False\<rparr>,
      stopWhenTest = Some (Pair (Inl (Raised ''boom''))),
      node = \<lparr>lastEntryId = 0, pendingInterestTable = ()\<rparr>, app = ()\<rparr>) \<noteq> Inr ()"
  by (simp add: stopWhenCallback_def Let_def)

text \<open>
  C7, amended. On a tick of \<^verbatim>\<open>_stopWhenCallback\<close> while \<^verbatim>\<open>self._loop\<close> is set, the
  predicate, if one is registered, is evaluated. If it returns true, the loop is asked
  to stop and no timer is added. In every other case (no predicate, a false result, an
  exception) one timer of 0.5 s for \<^verbatim>\<open>_stopWhenCallback\<close> is added, so polling goes on;
  an exception of the predicate is not caught: after the timer is set it goes on to the
  caller of the tick. The ready queue is left alone.
\<close>

theorem stopWhenCallback_tick:
  assumes "loop s = Some l"
  shows "(let outcome = (case stopWhenTest s of
                           None \<Rightarrow> Inr False
                         | Some test \<Rightarrow> fst (test (app s)))
          in fst (stopWhenCallback s) = (case outcome of Inl e \<Rightarrow> Inl e | Inr b \<Rightarrow> Inr ()) \<and>
             armed (snd (stopWhenCallback s)) =
               (if outcome = Inr True then timers l else timers l @ [(500, StopWhenCallback)]) \<and>
             (case loop (snd (stopWhenCallback s)) of
                None \<Rightarrow> False
              | Some l' \<Rightarrow> stopping l' = (stopping l \<or> outcome = Inr True) \<and>
                           ready l' = ready l))"
  using assms
  by (auto simp: stopWhenCallback_def Let_def armed_def call_later_def loop_stop_def
           split: option.splits prod.splits sum.splits)

theorem stopWhenCallback_tick_witness:
  "loop \<lparr>loop = Some \<lparr>ready = ([] :: unit callback list), timers = [], stopping = False\<rparr>,
      stopWhenTest = Some (\<lambda>w. (Inl (Raised ''boom''), w)),
      node = \<lparr>lastEntryId = 0, pendingInterestTable = ()\<rparr>, app = ()\<rparr> =
     Some \<lparr>ready = [], timers = [], stopping = False\<rparr> \<and>
   fst (stopWhenCallback
     \<lparr>loop = Some \<lparr>ready = ([] :: unit callback list), timers = [], stopping = False\<rparr>,
      stopWhenTest = Some (\<lambda>w. (Inl (Raised ''boom''), w)),
      node = \<lparr>lastEntryId = 0, pendingInterestTable = ()\<rparr>, app = ()\<rparr>) =
     Inl (Raised ''boom'') \<and>
   armed (snd (stopWhenCallback
     \<lparr>loop = Some \<lparr>ready = ([] :: unit callback list), timers = [], stopping = False\<rparr>,
      stopWhenTest = Some (\<lambda>w. (Inl (Raised ''boom''), w)),
      node = \<lparr>lastEntryId = 0, pendingInterestTable = ()\<rparr>, app = ()\<rparr>)) =
     [(500, StopWhenCallback)]"
  using stopWhenCallback_tick [of
     "\<lparr>loop = Some \<lparr>ready = ([] :: unit callback list), timers = [], stopping = False\<rparr>,
      stopWhenTest = Some (\<lambda>w. (Inl (Raised ''boom''), w)),
      node = \<lparr>lastEntryId = 0, pendingInterestTable = ()\<rparr>, app = ()\<rparr>"
     "\<lparr>ready = ([] :: unit callback list), timers = [], stopping = False\<rparr>"]
  by (simp add: Let_def)

section \<open>Ids handed out ahead of the work\<close>

text \<open>
  C8. \<^verbatim>\<open>expressInterest\<close>, \<^verbatim>\<open>registerPrefix\<close> and \<^verbatim>\<open>setInterestFilter\<close>, run by the
  caller on a face whose loop is set: the id is taken from \<^verbatim>\<open>getNextEntryId\<close> (one more
  than the last id), the same id is returned at once and is the first argument of the
  one helper call put at the end of the loop's ready queue, to be run by the loop. The
  method itself does nothing else: the pending interest table of the node is as it was,
  and so are the loop's timers and the rest of the face.
\<close>

theorem ids_preallocated:
  assumes "loop s = Some l"
  shows "(let pre = getNextEntryId (node s)
          in pre = (PyInt (lastEntryId (node s) + 1),
                    (node s)\<lparr>lastEntryId := lastEntryId (node s) + 1\<rparr>) \<and>
             pendingInterestTable (snd pre) = pendingInterestTable (node s) \<and>
             expressInterest interestOrName arg2 arg3 arg4 arg5 s =
               (Inr (fst pre),
                s\<lparr>loop := Some (l\<lparr>ready := ready l @
                     [ExpressInterestHelper (fst pre) interestOrName arg2 arg3 arg4 arg5]\<rparr>),
                  node := snd pre\<rparr>) \<and>
             registerPrefix prefix onInterest onRegisterFailed flags wireFormat s =
               (Inr (fst pre),
                s\<lparr>loop := Some (l\<lparr>ready := ready l @
                     [RegisterPrefixHelper (fst pre) prefix onInterest onRegisterFailed flags
                        wireFormat]\<rparr>),
                  node := snd pre\<rparr>) \<and>
             setInterestFilter filterOrPrefix onInterest' s =
               (Inr (fst pre),
                s\<lparr>loop := Some (l\<lparr>ready := ready l @
                     [SetInterestFilterHelper (fst pre) filterOrPrefix onInterest']\<rparr>),
                  node := snd pre\<rparr>))"
  using assms
  by (simp add: Let_def getNextEntryId_def expressInterest_def registerPrefix_def
        setInterestFilter_def hand_off_def call_soon_threadsafe_def)

text \<open>The scenario of the spec: the last id was 8, the caller gets 9 at once.\<close>

theorem ids_preallocated_witness:
  "loop (ThreadsafeFace \<lparr>ready = [], timers = [], stopping = False\<rparr>
           \<lparr>lastEntryId = 8, pendingInterestTable = ([] :: nat list)\<rparr> ()) =
     Some \<lparr>ready = [StopWhenCallback, ProcessEventsCallback], timers = [], stopping = False\<rparr> \<and>
   fst (expressInterest ''/a/b'' ''onData'' ''onTimeout'' '''' ''''
     (ThreadsafeFace \<lparr>ready = [], timers = [], stopping = False\<rparr>
           \<lparr>lastEntryId = 8, pendingInterestTable = ([] :: nat list)\<rparr> ())) = Inr (PyInt 9) \<and>
   queued (snd (expressInterest ''/a/b'' ''onData'' ''onTimeout'' '''' ''''
     (ThreadsafeFace \<lparr>ready = [], timers = [], stopping = False\<rparr>
           \<lparr>lastEntryId = 8, pendingInterestTable = ([] :: nat list)\<rparr> ()))) =
     [StopWhenCallback, ProcessEventsCallback,
      ExpressInterestHelper (PyInt 9) ''/a/b'' ''onData'' ''onTimeout'' '''' ''''] \<and>
   pendingInterestTable (node (snd (expressInterest ''/a/b'' ''onData'' ''onTimeout'' '''' ''''
     (ThreadsafeFace \<lparr>ready = [], timers = [], stopping = False\<rparr>
           \<lparr>lastEntryId = 8, pendingInterestTable = ([] :: nat list)\<rparr> ())))) = []"
  using ids_preallocated [of
     "ThreadsafeFace \<lparr>ready = [], timers = [], stopping = False\<rparr>
           \<lparr>lastEntryId = 8, pendingInterestTable = ([] :: nat list)\<rparr> ()"
     "\<lparr>ready = [StopWhenCallback, ProcessEventsCallback], timers = [], stopping = False\<rparr>"
     "''/a/b''" "''onData''" "''onTimeout''" "''''" "''''" "''''" "''''" "''''" "''''" "''''" "''''" "''''"]
  by (simp add: Let_def ThreadsafeFace_def call_soon_def queued_def)

end
